theory Spec2Isabelle
  imports Complex_Main
begin

section \<open>Values shared by the whole client\<close>

text \<open>
  Go strings and byte slices are sequences of bytes; both are modelled as
  \<^typ>\<open>string\<close> (a list of 8-bit characters).  Lengths and counters are Go
  \<open>int\<close>s that never go below zero here and cannot reach 2^63 (they are bounded by
  the size of something held in memory), so they are natural numbers.
\<close>

text \<open>
  Go errors are values.  The constructors follow the calls that build them in the
  source: \<open>errors.New(msg)\<close>, \<open>fmt.Errorf(prefix + "%w", cause)\<close> (the text before
  the verb and the wrapped cause), the sentinel \<open>io.EOF\<close>, and the errors that the
  \<open>net\<close> and \<open>encoding/json\<close> packages hand back, kept by their text.
\<close>

datatype go_error =
    errors_New string
  | fmt_Errorf string go_error
  | io_EOF
  | net_OpError string
  | json_Error string

text \<open>
  How a call ends: it returns a value, it panics (the value of the panic kept as
  text), or it never returns because it waits on a peer that stays silent.
\<close>

datatype 'a exec = Done 'a | Panicked string | Blocked

text \<open>The constants of the source.\<close>

definition BUF_SIZE :: nat where
  "BUF_SIZE = 8192"

definition MAX_COMMANDS :: nat where
  "MAX_COMMANDS = 30"

text \<open>\<open>net.UnixAddr\<close> and the connection of \<open>EventClient\<close> / \<open>IPCClient\<close>.\<close>

record UnixAddr =
  Name :: string
  Net :: string

text \<open>
  What a peer does on one connection, as the client sees it: whether \<open>Write\<close>
  reports an error, and what successive \<open>Read\<close>s find.  A \<open>Chunk\<close> segment is a run
  of bytes that is available to one read; \<open>Eof\<close> is the peer closing its side;
  \<open>Fail\<close> is a read error.  After the last segment the peer is silent and a read
  waits for ever.
\<close>

datatype segment = Chunk string | Eof | Fail go_error

record peer =
  write_err :: "go_error option"
  incoming :: "segment list"

text \<open>
  A connection: the peer's behaviour still to come, the payloads handed to
  \<open>Write\<close> so far, and whether \<open>Close\<close> has run.
\<close>

record unixconn =
  ahead :: "segment list"
  wfail :: "go_error option"
  sent :: "string list"
  closed :: bool

definition connect :: "peer \<Rightarrow> unixconn" where
  "connect p = \<lparr>ahead = incoming p, wfail = write_err p, sent = [], closed = False\<rparr>"

text \<open>The outcome of dialing a socket: an error and no connection, or a peer.\<close>

datatype dial = DialFail go_error | DialOk peer

record IPCClient =
  Validate :: bool
  requestConn :: UnixAddr
  eventConn :: unixconn

record ReceivedData =
  Type :: string
  Data :: string

section \<open>The library functions the client calls\<close>

subsection \<open>\<open>strings.Index\<close> and \<open>strings.Count\<close>\<close>

text \<open>
  \<open>strings.Index(s, substr)\<close>: the index of the first instance of \<open>substr\<close> in
  \<open>s\<close>, Go's \<open>-1\<close> being \<open>None\<close>.
\<close>

fun strings_Index :: "string \<Rightarrow> string \<Rightarrow> nat option" where
  "strings_Index [] substr = (if substr = [] then Some 0 else None)"
| "strings_Index (c # s) substr =
     (if take (length substr) (c # s) = substr then Some 0
      else map_option Suc (strings_Index s substr))"

text \<open>
  The loop of \<open>strings.Count\<close>:
  \<^verbatim>\<open>n := 0; for { i := Index(s, substr); if i == -1 { return n }; n++; s = s[i+len(substr):] }\<close>
  Go runs it for a separator of two bytes or more, and counts a one-byte separator
  byte by byte, which gives the same number.  For the empty separator Go returns the
  number of UTF-8 code points plus one; the client never passes one (its only call
  has the literal \<open>"ok"\<close>) and the model does not cover that case: the guard only
  keeps the recursion well-founded.
\<close>

function Count_loop :: "string \<Rightarrow> string \<Rightarrow> nat \<Rightarrow> nat" where
  "Count_loop s substr n =
     (if substr = [] then n
      else case strings_Index s substr of
             None \<Rightarrow> n
           | Some i \<Rightarrow> Count_loop (drop (i + length substr) s) substr (n + 1))"
  by pat_completeness auto
termination
proof (relation "measure (\<lambda>(s, substr, n). length s)")
  show "wf (measure (\<lambda>(s, substr, n). length s))" by simp
next
  fix s substr :: string and n i :: nat
  assume "substr \<noteq> []" "strings_Index s substr = Some i"
  then have "s \<noteq> []" by (cases s) auto
  with \<open>substr \<noteq> []\<close>
  show "((drop (i + length substr) s, substr, n + 1), (s, substr, n))
          \<in> measure (\<lambda>(s, substr, n). length s)"
    by simp
qed

declare Count_loop.simps [simp del]

definition strings_Count :: "string \<Rightarrow> string \<Rightarrow> nat" where
  "strings_Count s substr = Count_loop s substr 0"

subsection \<open>The verb \<open>%d\<close> of \<open>fmt.Sprintf\<close>\<close>

text \<open>Decimal digits of a number that is not negative, most significant first.\<close>

fun itoa :: "nat \<Rightarrow> string" where
  "itoa n = (if n < 10 then [''0123456789'' ! n]
             else itoa (n div 10) @ [''0123456789'' ! (n mod 10)])"

declare itoa.simps [simp del]

section \<open>The response validator\<close>

text \<open>
  \<open>validateResponse\<close> returns Go's \<open>nil\<close> as \<open>None\<close>.  The message of its second
  error is \<open>fmt.Sprintf("got ok: %d, want: %d, response: %s", got, want, response)\<close>.
\<close>

definition validateResponse :: "IPCClient \<Rightarrow> string list \<Rightarrow> string \<Rightarrow> go_error option" where
  "validateResponse c params response =
     (if \<not> Validate c then None
      else if length response = 0 then Some (errors_New ''empty response'')
      else
        let got = strings_Count response ''ok'';
            want = length params;
            want = (if want = 0 then 1 else want)
        in if got < want
           then Some (errors_New (''got ok: '' @ itoa got @ '', want: '' @ itoa want
                                    @ '', response: '' @ response))
           else None)"

text \<open>
  The words of the specification, to compare with: the positions at which a token
  occurs in a text, listed in increasing order.
\<close>

definition occurrences :: "string \<Rightarrow> string \<Rightarrow> nat list" where
  "occurrences s tok = filter (\<lambda>i. take (length tok) (drop i s) = tok) [0..<length s]"

section \<open>The command batcher\<close>

subsection \<open>Byte slices and \<open>bytes.Buffer\<close>\<close>

text \<open>
  \<open>prepareRequests\<close> appends \<open>buffer.Bytes()\<close> to its result and then goes on
  writing to the same buffer.  \<open>Bytes\<close> returns a slice that shares the buffer's
  backing array, so what a request reads at the end depends on which arrays the later
  writes touch.  The model therefore keeps the backing arrays in a store: the heap is
  the list of the arrays allocated so far (an address is a position in it), each as
  long as its capacity, and a slice is a window on one of them; Go's \<open>nil\<close> slice is
  \<open>None\<close>.
\<close>

type_synonym heap = "string list"

record slice =
  array :: nat
  start :: nat
  len :: nat

definition slice_len :: "slice option \<Rightarrow> nat" where
  "slice_len s = (case s of None \<Rightarrow> 0 | Some x \<Rightarrow> len x)"

definition slice_cap :: "heap \<Rightarrow> slice option \<Rightarrow> nat" where
  "slice_cap h s = (case s of None \<Rightarrow> 0 | Some x \<Rightarrow> length (h ! array x) - start x)"

text \<open>The bytes a slice shows in a heap.\<close>

definition slice_bytes :: "heap \<Rightarrow> slice option \<Rightarrow> string" where
  "slice_bytes h s =
     (case s of None \<Rightarrow> [] | Some x \<Rightarrow> take (len x) (drop (start x) (h ! array x)))"

text \<open>\<open>s[:n]\<close> and \<open>s[k:]\<close>.\<close>

definition reslice_to :: "slice option \<Rightarrow> nat \<Rightarrow> slice option" where
  "reslice_to s n = map_option (\<lambda>x. x\<lparr>len := n\<rparr>) s"

definition reslice_from :: "slice option \<Rightarrow> nat \<Rightarrow> slice option" where
  "reslice_from s k = map_option (\<lambda>x. x\<lparr>start := start x + k, len := len x - k\<rparr>) s"

text \<open>An array with the bytes \<open>s\<close> written over it from position \<open>pos\<close> on.\<close>

definition overwrite :: "string \<Rightarrow> nat \<Rightarrow> string \<Rightarrow> string" where
  "overwrite a pos s = take pos a @ s @ drop (pos + length s) a"

text \<open>\<open>copy(dst, src)\<close>: the first \<open>min(len(dst), len(src))\<close> bytes, written in place.\<close>

definition copy_into :: "heap \<Rightarrow> slice option \<Rightarrow> string \<Rightarrow> heap" where
  "copy_into h dst src =
     (case dst of
        None \<Rightarrow> h
      | Some x \<Rightarrow>
          let n = min (len x) (length src)
          in h[array x := overwrite (h ! array x) (start x) (take n src)])"

text \<open>
  \<open>bytes.Buffer\<close>: its contents are \<open>buf[off:]\<close>.  The field \<open>lastRead\<close> only serves
  the unread methods and is left out.
\<close>

record Buffer =
  buf :: "slice option"
  off :: nat

definition smallBufferSize :: nat where
  "smallBufferSize = 64"

definition Buffer_Reset :: "Buffer \<Rightarrow> Buffer" where
  "Buffer_Reset b = b\<lparr>buf := reslice_to (buf b) 0, off := 0\<rparr>"

definition Buffer_Bytes :: "Buffer \<Rightarrow> slice option" where
  "Buffer_Bytes b = reslice_from (buf b) (off b)"

definition tryGrowByReslice :: "heap \<Rightarrow> Buffer \<Rightarrow> nat \<Rightarrow> (nat \<times> Buffer) option" where
  "tryGrowByReslice h b n =
     (let l = slice_len (buf b)
      in if n \<le> slice_cap h (buf b) - l
         then Some (l, b\<lparr>buf := reslice_to (buf b) (l + n)\<rparr>)
         else None)"

text \<open>
  \<open>growSlice(b, n)\<close> allocates \<open>append([]byte(nil), make([]byte, c)...)\<close> and copies
  \<open>b\<close> into it.  The language fixes the length of that array's slice, not its
  capacity: the runtime rounds the request up to a size of its allocator.  The
  rounding is the parameter \<open>rup\<close> (a request of \<open>c\<close> bytes gets \<open>rup c\<close>), carried by
  every function that may allocate.
\<close>

definition growSlice ::
  "(nat \<Rightarrow> nat) \<Rightarrow> heap \<Rightarrow> slice option \<Rightarrow> nat \<Rightarrow> heap \<times> slice option" where
  "growSlice rup h b n =
     (let c = slice_len b + n;
          c = (if c < 2 * slice_cap h b then 2 * slice_cap h b else c);
          old = slice_bytes h b
      in (h @ [old @ replicate (rup c - length old) (CHR 0x00)],
          Some \<lparr>array = length h, start = 0, len = length old\<rparr>))"

text \<open>
  \<open>Buffer.grow(n)\<close> returns the index where the \<open>n\<close> bytes go.  Go's test
  \<open>n <= c/2-m\<close> is on signed integers; on naturals it reads \<open>n + m \<le> c div 2\<close>.  The
  panic \<open>ErrTooLarge\<close> needs a buffer of more than 2^62 bytes and is left out.
\<close>

definition Buffer_grow :: "(nat \<Rightarrow> nat) \<Rightarrow> heap \<times> Buffer \<Rightarrow> nat \<Rightarrow> nat \<times> heap \<times> Buffer" where
  "Buffer_grow rup hb n =
     (let h = fst hb; b = snd hb;
          m = slice_len (buf b) - off b;
          b = (if m = 0 \<and> off b \<noteq> 0 then Buffer_Reset b else b)
      in case tryGrowByReslice h b n of
           Some (i, b') \<Rightarrow> (i, h, b')
         | None \<Rightarrow>
             if buf b = None \<and> n \<le> smallBufferSize
             then (0, h @ [replicate smallBufferSize (CHR 0x00)],
                   b\<lparr>buf := Some \<lparr>array = length h, start = 0, len = n\<rparr>\<rparr>)
             else
               let c = slice_cap h (buf b);
                   (h, b) =
                     (if n + m \<le> c div 2
                      then (copy_into h (buf b) (slice_bytes h (reslice_from (buf b) (off b))), b)
                      else let (h', s) = growSlice rup h (reslice_from (buf b) (off b)) (off b + n)
                           in (h', b\<lparr>buf := s\<rparr>))
               in (m, h, b\<lparr>off := 0, buf := reslice_to (buf b) (m + n)\<rparr>))"

definition WriteString :: "(nat \<Rightarrow> nat) \<Rightarrow> heap \<times> Buffer \<Rightarrow> string \<Rightarrow> heap \<times> Buffer" where
  "WriteString rup hb s =
     (let (m, h, b) =
            (case tryGrowByReslice (fst hb) (snd hb) (length s) of
               Some (m, b') \<Rightarrow> (m, fst hb, b')
             | None \<Rightarrow> Buffer_grow rup hb (length s))
      in (copy_into h (reslice_from (buf b) m) s, b))"

subsection \<open>\<open>prepareRequests\<close>\<close>

text \<open>
  The inner loop \<open>for j := i; j < end; j++\<close>.  It reads \<open>params[j]\<close> only for
  \<open>j < end \<le> len(params)\<close>, so the index is in range.
\<close>

function batch_items ::
  "(nat \<Rightarrow> nat) \<Rightarrow> string \<Rightarrow> string list \<Rightarrow> nat \<Rightarrow> nat \<Rightarrow> heap \<times> Buffer \<Rightarrow> heap \<times> Buffer" where
  "batch_items rup command params j e hb =
     (if j < e
      then batch_items rup command params (j + 1) e
             (WriteString rup
               (WriteString rup
                 (WriteString rup
                   (WriteString rup hb command) '' '') (params ! j)) '';'')
      else hb)"
  by pat_completeness auto
termination
  by (relation "measure (\<lambda>(rup, command, params, j, e, hb). e - j)") auto

declare batch_items.simps [simp del]

text \<open>
  The body of the outer loop for the chunk that starts at \<open>i\<close>.  Its state is the
  heap, the one buffer declared before the loop, and the slices appended so far.
\<close>

definition one_batch ::
  "(nat \<Rightarrow> nat) \<Rightarrow> string \<Rightarrow> string list \<Rightarrow> nat \<Rightarrow> heap \<times> Buffer \<times> slice option list
     \<Rightarrow> heap \<times> Buffer \<times> slice option list" where
  "one_batch rup command params i st =
     (let h = fst st; b = fst (snd st); requests = snd (snd st);
          e = i + MAX_COMMANDS;
          e = (if e > length params then length params else e);
          b = Buffer_Reset b;
          hb = WriteString rup (h, b) ''[[BATCH]]'';
          hb = batch_items rup command params i e hb
      in (fst hb, snd hb, requests @ [Buffer_Bytes (snd hb)]))"

text \<open>The outer loop \<open>for i := 0; i < len(params); i += MAX_COMMANDS\<close>.\<close>

function batches ::
  "(nat \<Rightarrow> nat) \<Rightarrow> string \<Rightarrow> string list \<Rightarrow> nat \<Rightarrow> heap \<times> Buffer \<times> slice option list
     \<Rightarrow> heap \<times> Buffer \<times> slice option list" where
  "batches rup command params i st =
     (if i < length params
      then batches rup command params (i + MAX_COMMANDS) (one_batch rup command params i st)
      else st)"
  by pat_completeness auto
termination
  by (relation "measure (\<lambda>(rup, command, params, i, st). length params - i)")
     (auto simp: MAX_COMMANDS_def)

declare batches.simps [simp del]

text \<open>
  \<open>prepareRequests\<close> panics on the empty command and otherwise returns its requests;
  the caller sees each one as the bytes its slice shows when the function returns.
  In the first two cases the request is a fresh conversion \<open>[]byte(...)\<close> that nothing
  else refers to.
\<close>

definition prepareRequests :: "(nat \<Rightarrow> nat) \<Rightarrow> string \<Rightarrow> string list \<Rightarrow> string list exec" where
  "prepareRequests rup command params =
     (if command = [] then Panicked ''empty command''
      else Done
        (case length params of
           0 \<Rightarrow> [command]
         | Suc 0 \<Rightarrow> [command @ '' '' @ params ! 0]
         | _ \<Rightarrow>
             let (h, b, requests) =
                   batches rup command params 0 ([], \<lparr>buf = None, off = 0\<rparr>, [])
             in map (slice_bytes h) requests))"

text \<open>An allocator that adds nothing to a request, for running the model.\<close>

definition exact :: "nat \<Rightarrow> nat" where
  "exact c = c"

text \<open>
  The words of the specification, to compare with: the request for one chunk of
  parameters.
\<close>

definition batch_request :: "string \<Rightarrow> string list \<Rightarrow> string" where
  "batch_request command chunk =
     ''[[BATCH]]'' @ concat (map (\<lambda>param. command @ '' '' @ param @ '';'') chunk)"

text \<open>
  For the proofs: a buffer that nothing has read from (\<open>off\<close> is 0) and whose slice
  lies inside an array of the heap; and the four strings the inner loop writes for
  one parameter.
\<close>

definition buf_ok :: "heap \<Rightarrow> Buffer \<Rightarrow> bool" where
  "buf_ok h b \<longleftrightarrow>
     off b = 0 \<and>
     (case buf b of
        None \<Rightarrow> True
      | Some x \<Rightarrow> array x < length h \<and> start x = 0 \<and> len x \<le> length (h ! array x))"

definition pieces :: "string \<Rightarrow> string \<Rightarrow> string list" where
  "pieces command param = [command, '' '', param, '';'']"

section \<open>The request transport\<close>

text \<open>
  \<open>conn.Read(buf)\<close> with a buffer of \<open>k\<close> bytes: \<open>Got d\<close> is \<open>n = len(d)\<close> bytes and a
  \<open>nil\<close> error, \<open>Err e\<close> is the error \<open>e\<close> (the source ignores \<open>n\<close> then), and \<open>Waits\<close>
  is a read that never returns.  A read takes at most \<open>k\<close> bytes of what is there and
  leaves the rest for the next one; end-of-stream stays.
\<close>

datatype read = Got string | Err go_error | Waits

definition conn_Read :: "nat \<Rightarrow> unixconn \<Rightarrow> read \<times> unixconn" where
  "conn_Read k conn =
     (case ahead conn of
        [] \<Rightarrow> (Waits, conn)
      | Eof # rest \<Rightarrow> (Err io_EOF, conn)
      | Fail err # rest \<Rightarrow> (Err err, conn\<lparr>ahead := rest\<rparr>)
      | Chunk d # rest \<Rightarrow>
          if length d \<le> k then (Got d, conn\<lparr>ahead := rest\<rparr>)
          else (Got (take k d), conn\<lparr>ahead := Chunk (drop k d) # rest\<rparr>))"

definition conn_Write :: "string \<Rightarrow> unixconn \<Rightarrow> go_error option \<times> unixconn" where
  "conn_Write payload conn = (wfail conn, conn\<lparr>sent := sent conn @ [payload]\<rparr>)"

definition conn_Close :: "unixconn \<Rightarrow> unixconn" where
  "conn_Close conn = conn\<lparr>closed := True\<rparr>"

text \<open>How much a connection still holds: the measure of the read loops.\<close>

fun to_come :: "segment list \<Rightarrow> nat" where
  "to_come [] = 0"
| "to_come (Chunk d # rest) = Suc (length d + to_come rest)"
| "to_come (x # rest) = Suc (to_come rest)"

text \<open>
  The loop \<open>for { n, err := conn.Read(buf); ... }\<close> of \<open>Request\<close>.  Its
  \<open>bytes.Buffer\<close> is local, is only written to, and is read once by \<open>Bytes()\<close> at the
  return, so it is kept as the bytes it holds (\<open>foldl_WriteString_content\<close> below is
  what a write does to them).
\<close>

function read_loop :: "unixconn \<Rightarrow> string \<Rightarrow> (go_error + string) exec \<times> unixconn" where
  "read_loop conn resp =
     (case conn_Read BUF_SIZE conn of
        (Waits, conn') \<Rightarrow> (Blocked, conn')
      | (Err err, conn') \<Rightarrow>
          if err = io_EOF then (Done (Inr resp), conn') else (Done (Inl err), conn')
      | (Got d, conn') \<Rightarrow>
          if length d < BUF_SIZE then (Done (Inr (resp @ d)), conn')
          else read_loop conn' (resp @ d))"
  by pat_completeness auto
termination
  apply (relation "measure (\<lambda>(conn, resp). to_come (ahead conn))")
   apply simp
  apply (auto simp: conn_Read_def BUF_SIZE_def split: list.splits segment.splits if_splits)
  done

declare read_loop.simps [simp del]

text \<open>
  \<open>Request\<close>, given what \<open>net.DialUnix("unix", nil, c.requestConn)\<close> comes back with.
  It returns how the call ends and the connection as the call leaves it.

  When the dial fails, \<open>conn\<close> is a nil \<open>*net.UnixConn\<close>, and the source runs
  \<open>defer conn.Close()\<close> before it looks at \<open>err\<close>.  \<open>Close\<close> is a method of the
  struct \<open>conn\<close> embedded in \<open>UnixConn\<close>, so the call is \<open>(&conn.conn).Close()\<close>: it
  selects a field through a nil pointer, which is a run-time panic in Go.  The return
  of the wrapped dial error on the next line is never reached.

  A call that waits for ever does not run its deferred \<open>Close\<close>.
\<close>

definition Request ::
  "IPCClient \<Rightarrow> string \<Rightarrow> dial \<Rightarrow> (go_error + string) exec \<times> unixconn option" where
  "Request c request d =
     (if length request = 0 then (Done (Inl (errors_New ''empty request'')), None)
      else case d of
        DialFail err \<Rightarrow>
          (Panicked ''runtime error: invalid memory address or nil pointer dereference'', None)
      | DialOk p \<Rightarrow>
          let conn = connect p;
              request = ''j/'' @ request
          in (case conn_Write request conn of
                (Some err, conn) \<Rightarrow>
                  (Done (Inl (fmt_Errorf ''error while writing to socket: '' err)),
                   Some (conn_Close conn))
              | (None, conn) \<Rightarrow>
                  (case read_loop conn [] of
                     (Blocked, conn) \<Rightarrow> (Blocked, Some conn)
                   | (r, conn) \<Rightarrow> (r, Some (conn_Close conn)))))"

text \<open>
  The errors the specification calls \<open>ConnectionError\<close>: the two that \<open>Request\<close>
  builds for a failed dial and a failed write.
\<close>

fun ConnectionError :: "go_error \<Rightarrow> bool" where
  "ConnectionError (fmt_Errorf msg cause) =
     (msg = ''error while connecting to socket: '' \<or> msg = ''error while writing to socket: '')"
| "ConnectionError _ = False"

section \<open>The calls of the client\<close>

text \<open>
  \<open>doRequest\<close> sends the requests one after the other, each on a connection of its
  own; \<open>w k\<close> is what the \<open>k\<close>-th dial of the call comes back with.
\<close>

fun send_all ::
  "IPCClient \<Rightarrow> string list \<Rightarrow> (nat \<Rightarrow> dial) \<Rightarrow> nat \<Rightarrow> string \<Rightarrow> (go_error + string) exec" where
  "send_all c [] w k response = Done (Inr response)"
| "send_all c (req # requests) w k response =
     (case fst (Request c req (w k)) of
        Done (Inl err) \<Rightarrow> Done (Inl (fmt_Errorf ''error while doing request: '' err))
      | Done (Inr resp) \<Rightarrow> send_all c requests w (k + 1) (response @ resp)
      | Panicked v \<Rightarrow> Panicked v
      | Blocked \<Rightarrow> Blocked)"

definition doRequest ::
  "(nat \<Rightarrow> nat) \<Rightarrow> IPCClient \<Rightarrow> string \<Rightarrow> string list \<Rightarrow> (nat \<Rightarrow> dial)
     \<Rightarrow> (go_error + string) exec" where
  "doRequest rup c command params w =
     (case prepareRequests rup command params of
        Done requests \<Rightarrow> send_all c requests w 0 []
      | Panicked v \<Rightarrow> Panicked v
      | Blocked \<Rightarrow> Blocked)"

text \<open>
  \<open>unmarshalResponse\<close>; \<open>unmarshal\<close> stands for \<open>json.Unmarshal\<close> into the target of
  the call, and the decoded value is returned where Go fills it in.
\<close>

definition unmarshalResponse :: "(string \<Rightarrow> go_error + 'v) \<Rightarrow> string \<Rightarrow> go_error + 'v" where
  "unmarshalResponse unmarshal response =
     (if length response = 0 then Inl (errors_New ''empty response'')
      else case unmarshal response of
             Inl err \<Rightarrow> Inl (fmt_Errorf ''error during unmarshal: '' err)
           | Inr v \<Rightarrow> Inr v)"

text \<open>The two shapes of the methods: decode the response, or validate it.\<close>

definition decoded ::
  "(string \<Rightarrow> go_error + 'v) \<Rightarrow> (go_error + string) exec \<Rightarrow> (go_error + 'v) exec" where
  "decoded unmarshal r =
     map_exec (\<lambda>x. case x of Inl err \<Rightarrow> Inl err
                            | Inr response \<Rightarrow> unmarshalResponse unmarshal response) r"

definition validated ::
  "IPCClient \<Rightarrow> string list \<Rightarrow> (go_error + string) exec \<Rightarrow> go_error option exec" where
  "validated c params r =
     map_exec (\<lambda>x. case x of Inl err \<Rightarrow> Some err
                            | Inr response \<Rightarrow> validateResponse c params response) r"

definition ActiveWindow ::
  "(string \<Rightarrow> go_error + 'v) \<Rightarrow> (nat \<Rightarrow> nat) \<Rightarrow> IPCClient \<Rightarrow> (nat \<Rightarrow> dial) \<Rightarrow> (go_error + 'v) exec" where
  "ActiveWindow unmarshal rup c w = decoded unmarshal (doRequest rup c ''activewindow'' [] w)"

definition ActiveWorkspace ::
  "(string \<Rightarrow> go_error + 'v) \<Rightarrow> (nat \<Rightarrow> nat) \<Rightarrow> IPCClient \<Rightarrow> (nat \<Rightarrow> dial) \<Rightarrow> (go_error + 'v) exec" where
  "ActiveWorkspace unmarshal rup c w =
     decoded unmarshal (doRequest rup c ''activeworkspace'' [] w)"

definition Clients ::
  "(string \<Rightarrow> go_error + 'v) \<Rightarrow> (nat \<Rightarrow> nat) \<Rightarrow> IPCClient \<Rightarrow> (nat \<Rightarrow> dial) \<Rightarrow> (go_error + 'v) exec" where
  "Clients unmarshal rup c w = decoded unmarshal (doRequest rup c ''clients'' [] w)"

definition CursorPos ::
  "(string \<Rightarrow> go_error + 'v) \<Rightarrow> (nat \<Rightarrow> nat) \<Rightarrow> IPCClient \<Rightarrow> (nat \<Rightarrow> dial) \<Rightarrow> (go_error + 'v) exec" where
  "CursorPos unmarshal rup c w = decoded unmarshal (doRequest rup c ''cursorpos'' [] w)"

definition Dispatch ::
  "(nat \<Rightarrow> nat) \<Rightarrow> IPCClient \<Rightarrow> string list \<Rightarrow> (nat \<Rightarrow> dial) \<Rightarrow> go_error option exec" where
  "Dispatch rup c params w = validated c params (doRequest rup c ''dispatch'' params w)"

definition GetOption ::
  "(string \<Rightarrow> go_error + 'v) \<Rightarrow> (nat \<Rightarrow> nat) \<Rightarrow> IPCClient \<Rightarrow> string \<Rightarrow> (nat \<Rightarrow> dial)
     \<Rightarrow> (go_error + 'v) exec" where
  "GetOption unmarshal rup c name w =
     decoded unmarshal (doRequest rup c ''getoption'' [name] w)"

definition Kill :: "(nat \<Rightarrow> nat) \<Rightarrow> IPCClient \<Rightarrow> (nat \<Rightarrow> dial) \<Rightarrow> go_error option exec" where
  "Kill rup c w = validated c [] (doRequest rup c ''kill'' [] w)"

definition Reload :: "(nat \<Rightarrow> nat) \<Rightarrow> IPCClient \<Rightarrow> (nat \<Rightarrow> dial) \<Rightarrow> go_error option exec" where
  "Reload rup c w = validated c [] (doRequest rup c ''reload'' [] w)"

definition Version ::
  "(string \<Rightarrow> go_error + 'v) \<Rightarrow> (nat \<Rightarrow> nat) \<Rightarrow> IPCClient \<Rightarrow> (nat \<Rightarrow> dial) \<Rightarrow> (go_error + 'v) exec" where
  "Version unmarshal rup c w = decoded unmarshal (doRequest rup c ''version'' [] w)"

definition Splash ::
  "(nat \<Rightarrow> nat) \<Rightarrow> IPCClient \<Rightarrow> (nat \<Rightarrow> dial) \<Rightarrow> (go_error + string) exec" where
  "Splash rup c w =
     map_exec (\<lambda>x. case x of Inl err \<Rightarrow> Inl err | Inr response \<Rightarrow> Inr response)
       (doRequest rup c ''splash'' [] w)"

text \<open>\<open>NewClient\<close>, given what \<open>net.Dial("unix", eventSocket)\<close> comes back with.\<close>

definition NewClient :: "string \<Rightarrow> string \<Rightarrow> dial \<Rightarrow> go_error + IPCClient" where
  "NewClient requestSocket eventSocket d =
     (if requestSocket = [] \<or> eventSocket = []
      then Inl (errors_New ''empty request or event socket'')
      else case d of
        DialFail err \<Rightarrow> Inl (fmt_Errorf ''error while connecting to socket: '' err)
      | DialOk p \<Rightarrow>
          Inr \<lparr>Validate = True,
               requestConn = \<lparr>Name = requestSocket, Net = ''unix''\<rparr>,
               eventConn = connect p\<rparr>)"

text \<open>
  For the examples: a peer that accepts the request and closes without a byte, on
  every dial, and a client with a given \<open>Validate\<close>.
\<close>

definition silent :: "nat \<Rightarrow> dial" where
  "silent k = DialOk \<lparr>write_err = None, incoming = [Eof]\<rparr>"

definition a_client :: "bool \<Rightarrow> IPCClient" where
  "a_client v = \<lparr>Validate = v,
                 requestConn = \<lparr>Name = ''/run/user/1000/hypr/a/.socket.sock'', Net = ''unix''\<rparr>,
                 eventConn = connect \<lparr>write_err = None, incoming = []\<rparr>\<rparr>"

section \<open>The event stream reader\<close>

text \<open>
  Modelled from the spec: the Event Stream Reader.  The source declares the struct
  \<open>EventClient\<close> with its one field \<open>conn\<close> and the record \<open>ReceivedData\<close>, and has no
  function that reads events; what follows is section 4.5 of the specification.  The
  reader keeps the partial trailing line between reads (the field \<open>pending\<close>, which the
  struct of the source does not have).  Each step reads what is there, cuts it at the
  line ends, and splits every complete line at the first \<open>>>\<close> into type and data.
  The specification does not say what a line without \<open>>>\<close> gives: such a line is
  \<open>None\<close> here, kept in its place.
\<close>

record EventClient =
  conn :: unixconn
  pending :: string

definition decode_line :: "string \<Rightarrow> ReceivedData option" where
  "decode_line line =
     (case strings_Index line ''>>'' of
        None \<Rightarrow> None
      | Some i \<Rightarrow> Some \<lparr>Type = take i line, Data = drop (i + 2) line\<rparr>)"

text \<open>
  Modelled from the spec: the line decoder.  \<open>split_lines partial s\<close> gives the lines
  completed by the bytes \<open>s\<close> after the partial line \<open>partial\<close>, and the partial line
  left at the end.
\<close>

fun split_lines :: "string \<Rightarrow> string \<Rightarrow> string list \<times> string" where
  "split_lines partial [] = ([], partial)"
| "split_lines partial (ch # s) =
     (if ch = CHR 0x0A
      then (partial # fst (split_lines [] s), snd (split_lines [] s))
      else split_lines (partial @ [ch]) s)"

definition complete_lines :: "string \<Rightarrow> string list" where
  "complete_lines s = fst (split_lines [] s)"

definition partial_line :: "string \<Rightarrow> string" where
  "partial_line s = snd (split_lines [] s)"

text \<open>Modelled from the spec: one iteration step of the reader.\<close>

definition Receive ::
  "EventClient \<Rightarrow> (go_error + ReceivedData option list) exec \<times> EventClient" where
  "Receive ec =
     (case conn_Read BUF_SIZE (conn ec) of
        (Waits, conn') \<Rightarrow> (Blocked, ec\<lparr>conn := conn'\<rparr>)
      | (Err err, conn') \<Rightarrow> (Done (Inl err), ec\<lparr>conn := conn'\<rparr>)
      | (Got d, conn') \<Rightarrow>
          (Done (Inr (map decode_line (fst (split_lines (pending ec) d)))),
           \<lparr>conn = conn', pending = snd (split_lines (pending ec) d)\<rparr>))"

text \<open>
  Modelled from the spec: the whole iteration.  It gives the events delivered, in the
  order of delivery, and how the sequence ends: with the terminating error (\<open>None\<close>
  for a clean close), or never, when the peer falls silent.
\<close>

function listen ::
  "EventClient \<Rightarrow> ReceivedData option list \<Rightarrow> ReceivedData option list \<times> go_error option exec" where
  "listen ec delivered =
     (case Receive ec of
        (Done (Inr events), ec') \<Rightarrow> listen ec' (delivered @ events)
      | (Done (Inl err), ec') \<Rightarrow> (delivered, Done (if err = io_EOF then None else Some err))
      | (Panicked v, ec') \<Rightarrow> (delivered, Panicked v)
      | (Blocked, ec') \<Rightarrow> (delivered, Blocked))"
  by pat_completeness auto
termination
  apply (relation "measure (\<lambda>(ec, delivered). to_come (ahead (conn ec)))")
   apply simp
  apply (auto simp: Receive_def conn_Read_def BUF_SIZE_def
      split: list.splits segment.splits if_splits)
  done

declare listen.simps [simp del]

text \<open>The bytes a peer writes before it closes, fails or falls silent.\<close>

fun stream :: "segment list \<Rightarrow> string" where
  "stream (Chunk d # rest) = d @ stream rest"
| "stream _ = []"

definition EventClient_on :: "segment list \<Rightarrow> EventClient" where
  "EventClient_on segs = \<lparr>conn = connect \<lparr>write_err = None, incoming = segs\<rparr>, pending = []\<rparr>"

section \<open>Properties of the response validator\<close>

subsection \<open>\<open>strings.Count\<close> counts the occurrences of \<open>ok\<close>\<close>

lemma occurrences_Nil: "occurrences [] tok = []"
  by (simp add: occurrences_def)

lemma occurrences_Cons:
  "occurrences (c # s) tok =
     (if take (length tok) (c # s) = tok then [0] else []) @ map Suc (occurrences s tok)"
proof -
  have "[0..<length (c # s)] = 0 # map Suc [0..<length s]"
    by (simp add: upt_conv_Cons map_Suc_upt del: upt_Suc)
  then show ?thesis
    by (simp add: occurrences_def filter_map o_def)
qed

lemma Index_None_occurrences:
  "strings_Index s tok = None \<Longrightarrow> occurrences s tok = []"
  by (induction s) (auto simp: occurrences_Nil occurrences_Cons split: if_splits)

lemma Index_Some_ok:
  "strings_Index s ''ok'' = Some i \<Longrightarrow>
   length (occurrences s ''ok'') = Suc (length (occurrences (drop (i + 2) s) ''ok''))"
proof (induction s arbitrary: i)
  case Nil
  then show ?case by simp
next
  case (Cons c s)
  show ?case
  proof (cases "take 2 (c # s) = ''ok''")
    case True
    then obtain s' where s: "c = CHR ''o''" "s = CHR ''k'' # s'"
      by (cases s) (auto simp: take_Suc_conv_app_nth numeral_2_eq_2)
    from True Cons.prems have "i = 0" by simp
    with s show ?thesis by (simp add: occurrences_Cons)
  next
    case False
    with Cons.prems obtain j where j: "strings_Index s ''ok'' = Some j" "i = Suc j"
      by auto
    from Cons.IH [OF j(1)] False j(2) show ?thesis
      by (simp add: occurrences_Cons)
  qed
qed

lemma Count_loop_ok: "Count_loop s ''ok'' n = n + length (occurrences s ''ok'')"
proof (induction s "''ok''" n rule: Count_loop.induct)
  case (1 s n)
  show ?case
  proof (cases "strings_Index s ''ok''")
    case None
    then show ?thesis
      by (subst Count_loop.simps) (simp add: Index_None_occurrences)
  next
    case (Some i)
    from "1.hyps" [OF _ Some] have "Count_loop (drop (i + length ''ok'') s) ''ok'' (n + 1)
        = n + 1 + length (occurrences (drop (i + length ''ok'') s) ''ok'')"
      by simp
    with Some Index_Some_ok [OF Some] show ?thesis
      by (subst Count_loop.simps) simp
  qed
qed

lemma strings_Count_ok: "strings_Count s ''ok'' = length (occurrences s ''ok'')"
  by (simp add: strings_Count_def Count_loop_ok)

lemma occurrence_ok_nth:
  "i \<in> set (occurrences s ''ok'') \<Longrightarrow> Suc i < length s \<and> s ! i = CHR ''o'' \<and> s ! Suc i = CHR ''k''"
proof -
  assume "i \<in> set (occurrences s ''ok'')"
  then have t: "take (Suc (Suc 0)) (drop i s) = ''ok''" by (simp add: occurrences_def)
  then have "length (take (Suc (Suc 0)) (drop i s)) = Suc (Suc 0)" by simp
  then have l: "Suc i < length s" by simp
  from t have "take (Suc (Suc 0)) (drop i s) ! 0 = CHR ''o''"
    "take (Suc (Suc 0)) (drop i s) ! Suc 0 = CHR ''k''"
    by simp_all
  with l show ?thesis by simp
qed

lemma occurrences_ok_apart:
  assumes "i \<in> set (occurrences s ''ok'')" "j \<in> set (occurrences s ''ok'')" "i < j"
  shows "i + 2 \<le> j"
proof (rule ccontr)
  assume "\<not> i + 2 \<le> j"
  with assms(3) have "j = Suc i" by simp
  with occurrence_ok_nth [OF assms(1)] occurrence_ok_nth [OF assms(2)] show False by simp
qed

subsection \<open>What \<open>validateResponse\<close> decides\<close>

text \<open>
  C1.  With validation on and a response that is not empty, \<open>validateResponse\<close>
  counts the occurrences of \<open>ok\<close> in the response (by \<open>occurrences_ok_apart\<close> two of
  them never overlap), takes the number of parameters, or 1 when there is none, as
  the number wanted, and returns the error that carries both numbers and the response
  exactly when it got fewer than it wanted; otherwise it returns no error, also when it
  got more.
\<close>

theorem validateResponse_counts_ok:
  assumes "Validate c" and "response \<noteq> []"
  shows "validateResponse c params response =
           (let got = length (occurrences response ''ok'');
                want = (if params = [] then 1 else length params)
            in if got < want
               then Some (errors_New (''got ok: '' @ itoa got @ '', want: '' @ itoa want
                                        @ '', response: '' @ response))
               else None)"
  using assms by (simp add: validateResponse_def strings_Count_ok Let_def)

text \<open>
  The claim at a response with one \<open>ok\<close> for two parameters.
\<close>

theorem validateResponse_counts_ok_witness:
  "Validate (a_client True) \<and> ''ok'' @ [CHR 0x0A] @ ''unknown request'' \<noteq> [] \<and>
   validateResponse (a_client True) [''exec kitty'', ''workspce 2'']
       (''ok'' @ [CHR 0x0A] @ ''unknown request'') =
     Some (errors_New (''got ok: 1, want: 2, response: ok'' @ [CHR 0x0A] @ ''unknown request''))"
proof -
  have v: "Validate (a_client True)" by (simp add: a_client_def)
  have n: "''ok'' @ [CHR 0x0A] @ ''unknown request'' \<noteq> []" by simp
  have o: "occurrences (''ok'' @ [CHR 0x0A] @ ''unknown request'') ''ok'' = [0]"
    by (simp add: occurrences_def upt_rec)
  have i: "itoa (Suc 0) = ''1''" "itoa (Suc (Suc 0)) = ''2''" by (simp_all add: itoa.simps)
  from validateResponse_counts_ok [OF v n, of "[''exec kitty'', ''workspce 2'']"] v n o i
  show ?thesis by simp
qed

text \<open>
  C6.  With \<open>Validate\<close> set to false, \<open>validateResponse\<close> returns no error for every
  parameter list and every response, the empty response included.
\<close>

theorem validateResponse_off:
  "\<not> Validate c \<Longrightarrow> validateResponse c params response = None"
  by (simp add: validateResponse_def)

text \<open>
  The claim at the empty response.
\<close>

theorem validateResponse_off_witness:
  "\<not> Validate (a_client False) \<and> validateResponse (a_client False) [''exec kitty''] [] = None"
proof -
  have v: "\<not> Validate (a_client False)" by (simp add: a_client_def)
  from validateResponse_off [OF v] v show ?thesis by simp
qed

section \<open>Properties of the command batcher\<close>

subsection \<open>Writes to a buffer\<close>

lemma length_overwrite:
  "pos + length s \<le> length a \<Longrightarrow> length (overwrite a pos s) = length a"
  by (simp add: overwrite_def)

lemma overwrite_overwrite:
  "pos + length s + length t \<le> length a \<Longrightarrow>
   overwrite (overwrite a pos s) (pos + length s) t = overwrite a pos (s @ t)"
  by (simp add: overwrite_def add.commute add.left_commute)

lemma overwrite_Nil: "overwrite a pos [] = a"
  by (simp add: overwrite_def)

lemma take_overwrite:
  "pos \<le> length a \<Longrightarrow> take (pos + length s) (overwrite a pos s) = take pos a @ s"
  by (simp add: overwrite_def)

lemma WriteString_inplace:
  assumes "buf b = Some x" "off b = 0" "start x = 0"
    and "len x + length s \<le> length (h ! array x)"
  shows "WriteString rup (h, b) s =
           (h[array x := overwrite (h ! array x) (len x) s],
            b\<lparr>buf := Some (x\<lparr>len := len x + length s\<rparr>)\<rparr>)"
proof -
  from assms have "length s \<le> length (h ! array x) - len x" by simp
  with assms show ?thesis
    by (simp add: WriteString_def tryGrowByReslice_def slice_len_def slice_cap_def
      reslice_to_def reslice_from_def copy_into_def Let_def)
qed

lemma WriteString_content:
  assumes "buf_ok h b" "WriteString rup (h, b) s = (h', b')"
  shows "buf_ok h' b' \<and> slice_bytes h' (buf b') = slice_bytes h (buf b) @ s"
proof (cases "buf b")
  case None
  show ?thesis
  proof (cases "s = []")
    case True
    with None assms show ?thesis
      by (auto simp: WriteString_def tryGrowByReslice_def slice_len_def slice_cap_def
      reslice_to_def reslice_from_def copy_into_def Let_def buf_ok_def slice_bytes_def)
  next
    case False
    with None assms show ?thesis
      apply (auto simp: WriteString_def tryGrowByReslice_def slice_len_def slice_cap_def
      reslice_to_def reslice_from_def copy_into_def Let_def buf_ok_def slice_bytes_def
      Buffer_grow_def Buffer_Reset_def growSlice_def smallBufferSize_def overwrite_def split: if_splits)
      done
  qed
next
  case (Some x)
  show ?thesis
  proof (cases "len x + length s \<le> length (h ! array x)")
    case True
    from WriteString_inplace [OF Some _ _ True, of rup] assms Some True show ?thesis
      by (auto simp: buf_ok_def slice_bytes_def length_overwrite overwrite_def)
  next
    case False
    with Some assms show ?thesis
      apply (auto simp: WriteString_def tryGrowByReslice_def slice_len_def slice_cap_def
      reslice_to_def reslice_from_def copy_into_def Let_def buf_ok_def slice_bytes_def
      Buffer_grow_def Buffer_Reset_def growSlice_def smallBufferSize_def overwrite_def nth_append split: if_splits)
      done
  qed
qed

lemma foldl_WriteString_content:
  "buf_ok h b \<Longrightarrow> foldl (WriteString rup) (h, b) ss = (h', b') \<Longrightarrow>
   buf_ok h' b' \<and> slice_bytes h' (buf b') = slice_bytes h (buf b) @ concat ss"
proof (induction ss arbitrary: h b)
  case Nil
  then show ?case by simp
next
  case (Cons s ss)
  obtain h1 b1 where w: "WriteString rup (h, b) s = (h1, b1)"
    by (cases "WriteString rup (h, b) s")
  from WriteString_content [OF Cons.prems(1) w]
  have ok: "buf_ok h1 b1" and by1: "slice_bytes h1 (buf b1) = slice_bytes h (buf b) @ s"
    by simp_all
  from Cons.prems(2) w have "foldl (WriteString rup) (h1, b1) ss = (h', b')" by simp
  from Cons.IH [OF ok this] by1 show ?case by simp
qed

lemma foldl_WriteString_inplace:
  "buf b = Some x \<Longrightarrow> off b = 0 \<Longrightarrow> start x = 0 \<Longrightarrow> array x < length h \<Longrightarrow>
   len x + length (concat ss) \<le> length (h ! array x) \<Longrightarrow>
   foldl (WriteString rup) (h, b) ss =
     (h[array x := overwrite (h ! array x) (len x) (concat ss)],
      b\<lparr>buf := Some (x\<lparr>len := len x + length (concat ss)\<rparr>)\<rparr>)"
proof (induction ss arbitrary: h b x)
  case Nil
  then show ?case by (simp add: overwrite_Nil)
next
  case (Cons s ss)
  let ?a = "h ! array x"
  let ?h1 = "h[array x := overwrite ?a (len x) s]"
  let ?x1 = "x\<lparr>len := len x + length s\<rparr>"
  let ?b1 = "b\<lparr>buf := Some ?x1\<rparr>"
  from Cons.prems have fits: "len x + length s \<le> length ?a" by simp
  have w: "WriteString rup (h, b) s = (?h1, ?b1)"
    by (rule WriteString_inplace [OF Cons.prems(1-3) fits])
  have a1: "?h1 ! array ?x1 = overwrite ?a (len x) s"
    using Cons.prems(4) by simp
  have "foldl (WriteString rup) (?h1, ?b1) ss =
          (?h1[array ?x1 := overwrite (?h1 ! array ?x1) (len ?x1) (concat ss)],
           ?b1\<lparr>buf := Some (?x1\<lparr>len := len ?x1 + length (concat ss)\<rparr>)\<rparr>)"
    using Cons.prems fits by (intro Cons.IH) (simp_all add: length_overwrite)
  moreover have "overwrite (overwrite ?a (len x) s) (len x + length s) (concat ss)
      = overwrite ?a (len x) (s @ concat ss)"
    using Cons.prems by (intro overwrite_overwrite) simp
  ultimately show ?case
    using w a1 by (simp add: add.assoc)
qed

lemma pieces_Cons:
  "concat (map (pieces command) (p # ps)) = [command, '' '', p, '';''] @ concat (map (pieces command) ps)"
  by (simp add: pieces_def)

lemma batch_items_foldl:
  "e \<le> length params \<Longrightarrow>
   batch_items rup command params j e hb =
     foldl (WriteString rup) hb (concat (map (pieces command) (take (e - j) (drop j params))))"
proof (induction rup command params j e hb rule: batch_items.induct)
  case (1 rup command params j e hb)
  show ?case
  proof (cases "j < e")
    case True
    with "1.prems" have "j < length params" by simp
    then have "drop j params = params ! j # drop (Suc j) params"
      by (simp add: Cons_nth_drop_Suc)
    moreover from True have "e - j = Suc (e - (j + 1))" by simp
    ultimately have "take (e - j) (drop j params)
        = params ! j # take (e - (j + 1)) (drop (j + 1) params)"
      by simp
    moreover have "foldl (WriteString rup) hb (pieces command (params ! j))
        = WriteString rup (WriteString rup (WriteString rup
            (WriteString rup hb command) '' '') (params ! j)) '';''"
      by (simp add: pieces_def)
    ultimately show ?thesis
      using "1.IH" [OF True "1.prems"] True
      by (subst batch_items.simps) simp
  next
    case False
    then show ?thesis
      by (subst batch_items.simps) simp
  qed
qed

lemma concat_pieces:
  "concat (concat (map (pieces command) ps)) = concat (map (\<lambda>param. command @ '' '' @ param @ '';'') ps)"
  by (induction ps) (simp_all add: pieces_def)

lemma one_batch_length:
  "length (snd (snd (one_batch rup command params i st))) = Suc (length (snd (snd st)))"
  by (simp add: one_batch_def Let_def)

lemma batches_length:
  "length (snd (snd (batches rup command params i st)))
     = length (snd (snd st)) + (length params - i + (MAX_COMMANDS - 1)) div MAX_COMMANDS"
proof (induction rup command params i st rule: batches.induct)
  case (1 rup command params i st)
  show ?case
  proof (cases "i < length params")
    case True
    have "(length params - i + 29) div 30 = Suc ((length params - (i + 30) + 29) div 30)"
    proof (cases "i + 30 \<le> length params")
      case True
      then have "length params - i + 29 = (length params - (i + 30) + 29) + 30" by simp
      then show ?thesis by (simp only: div_add_self2)
    next
      case False
      with \<open>i < length params\<close> show ?thesis by simp
    qed
    with True "1.IH" [OF True] show ?thesis
      by (subst batches.simps) (simp add: one_batch_length MAX_COMMANDS_def)
  next
    case False
    then show ?thesis
      by (subst batches.simps) (simp add: MAX_COMMANDS_def)
  qed
qed

lemma chunk_bounds:
  "take ((if length params < i + MAX_COMMANDS then length params else i + MAX_COMMANDS) - i)
     (drop i params) = take MAX_COMMANDS (drop i params)"
  by simp

lemma one_batch_foldl:
  "one_batch rup command params i (h, b, reqs) = (h', b', reqs') \<Longrightarrow>
   foldl (WriteString rup) (h, Buffer_Reset b)
     (''[[BATCH]]'' # concat (map (pieces command) (take MAX_COMMANDS (drop i params))))
     = (h', b') \<and> reqs' = reqs @ [Buffer_Bytes b']"
proof -
  assume a: "one_batch rup command params i (h, b, reqs) = (h', b', reqs')"
  let ?e = "if length params < i + MAX_COMMANDS then length params else i + MAX_COMMANDS"
  have "?e \<le> length params" by simp
  from batch_items_foldl [OF this, of rup command i] chunk_bounds [of params i]
  have "batch_items rup command params i ?e (WriteString rup (h, Buffer_Reset b) ''[[BATCH]]'')
      = foldl (WriteString rup) (h, Buffer_Reset b)
         (''[[BATCH]]'' # concat (map (pieces command) (take MAX_COMMANDS (drop i params))))"
    by simp
  with a show ?thesis
    by (auto simp: one_batch_def Let_def)
qed

lemma batch_request_pieces:
  "concat (''[[BATCH]]'' # concat (map (pieces command) ps)) = batch_request command ps"
  by (simp add: batch_request_def concat_pieces)

lemma buf_ok_Reset: "buf_ok h b \<Longrightarrow> buf_ok h (Buffer_Reset b)"
  by (auto simp: buf_ok_def Buffer_Reset_def reslice_to_def split: option.splits)

lemma bytes_Reset: "slice_bytes h (buf (Buffer_Reset b)) = []"
  by (auto simp: Buffer_Reset_def reslice_to_def slice_bytes_def split: option.splits)

lemma Bytes_ok: "buf_ok h b \<Longrightarrow> Buffer_Bytes b = buf b"
  by (auto simp: buf_ok_def Buffer_Bytes_def reslice_from_def split: option.splits)

lemma one_batch_content:
  assumes "buf_ok h b" "one_batch rup command params i (h, b, reqs) = (h', b', reqs')"
  shows "buf_ok h' b' \<and> reqs' = reqs @ [buf b'] \<and>
         slice_bytes h' (buf b') = batch_request command (take MAX_COMMANDS (drop i params))"
proof -
  from one_batch_foldl [OF assms(2)]
  have f: "foldl (WriteString rup) (h, Buffer_Reset b)
     (''[[BATCH]]'' # concat (map (pieces command) (take MAX_COMMANDS (drop i params))))
     = (h', b')" and r: "reqs' = reqs @ [Buffer_Bytes b']"
    by simp_all
  from foldl_WriteString_content [OF buf_ok_Reset [OF assms(1)] f]
  have "buf_ok h' b'" and "slice_bytes h' (buf b') =
      concat (''[[BATCH]]'' # concat (map (pieces command) (take MAX_COMMANDS (drop i params))))"
    by (simp_all add: bytes_Reset)
  with r show ?thesis
    by (simp only: batch_request_pieces Bytes_ok)
qed

lemma one_batch_inplace:
  assumes "buf b = Some x" "off b = 0" "start x = 0" "array x < length h"
    and "length (batch_request command (take MAX_COMMANDS (drop i params))) \<le> length (h ! array x)"
  shows "one_batch rup command params i (h, b, reqs) =
     (h[array x := overwrite (h ! array x) 0 (batch_request command (take MAX_COMMANDS (drop i params)))],
      b\<lparr>buf := Some (x\<lparr>len := length (batch_request command (take MAX_COMMANDS (drop i params)))\<rparr>)\<rparr>,
      reqs @ [Some (x\<lparr>len := length (batch_request command (take MAX_COMMANDS (drop i params)))\<rparr>)])"
proof -
  define ss where
    "ss = ''[[BATCH]]'' # concat (map (pieces command) (take MAX_COMMANDS (drop i params)))"
  define r where "r = batch_request command (take MAX_COMMANDS (drop i params))"
  let ?x0 = "x\<lparr>len := 0\<rparr>"
  obtain h' b' reqs' where ob: "one_batch rup command params i (h, b, reqs) = (h', b', reqs')"
    by (cases "one_batch rup command params i (h, b, reqs)")
  from one_batch_foldl [OF ob]
  have f: "foldl (WriteString rup) (h, Buffer_Reset b) ss = (h', b')"
    and rq: "reqs' = reqs @ [Buffer_Bytes b']"
    by (simp_all only: ss_def)
  have c: "concat ss = r"
    unfolding ss_def r_def by (rule batch_request_pieces)
  have b0: "buf (Buffer_Reset b) = Some ?x0" "off (Buffer_Reset b) = 0"
    using assms(1) by (simp_all add: Buffer_Reset_def reslice_to_def)
  have fits: "len ?x0 + length (concat ss) \<le> length (h ! array ?x0)"
    using assms(5) by (simp add: c r_def)
  have "foldl (WriteString rup) (h, Buffer_Reset b) ss =
     (h[array ?x0 := overwrite (h ! array ?x0) (len ?x0) (concat ss)],
      (Buffer_Reset b)\<lparr>buf := Some (?x0\<lparr>len := len ?x0 + length (concat ss)\<rparr>)\<rparr>)"
    using assms(3,4) by (intro foldl_WriteString_inplace b0 fits) simp_all
  with f have h': "h' = h[array x := overwrite (h ! array x) 0 r]"
    and b': "b' = (Buffer_Reset b)\<lparr>buf := Some (x\<lparr>len := length r\<rparr>)\<rparr>"
    by (simp_all add: c)
  from b' assms(2) have b'': "b' = b\<lparr>buf := Some (x\<lparr>len := length r\<rparr>)\<rparr>"
    by (simp add: Buffer_Reset_def)
  with assms(2,3) have "Buffer_Bytes b' = Some (x\<lparr>len := length r\<rparr>)"
    by (simp add: Buffer_Bytes_def reslice_from_def)
  with ob h' b'' rq show ?thesis
    by (simp only: r_def)
qed

lemma prepareRequests_batches:
  "command \<noteq> [] \<Longrightarrow> 2 \<le> length params \<Longrightarrow>
   batches rup command params 0 ([], \<lparr>buf = None, off = 0\<rparr>, []) = (h, b, requests) \<Longrightarrow>
   prepareRequests rup command params = Done (map (slice_bytes h) requests)"
  by (cases params rule: list.exhaust [case_product list.exhaust])
     (auto simp: prepareRequests_def split: nat.splits list.splits)

lemma buf_ok_empty: "buf_ok [] \<lparr>buf = None, off = 0\<rparr>"
  by (simp add: buf_ok_def)

lemma prepareRequests_one_chunk:
  assumes "command \<noteq> []" "2 \<le> length params" "length params \<le> MAX_COMMANDS"
  shows "prepareRequests rup command params = Done [batch_request command params]"
proof -
  let ?st = "([], \<lparr>buf = None, off = 0\<rparr>, []) :: heap \<times> Buffer \<times> slice option list"
  obtain h b reqs where ob: "one_batch rup command params 0 ?st = (h, b, reqs)"
    by (cases "one_batch rup command params 0 ?st")
  from one_batch_content [OF buf_ok_empty ob] assms(3)
  have reqs: "reqs = [buf b]" and bytes: "slice_bytes h (buf b) = batch_request command params"
    by simp_all
  from assms(2) have "params \<noteq> []" by auto
  with assms(3) ob have "batches rup command params 0 ?st = (h, b, reqs)"
    by (subst batches.simps, subst batches.simps) simp
  from prepareRequests_batches [OF assms(1,2) this] reqs bytes show ?thesis
    by simp
qed

lemma prepareRequests_aliased:
  assumes "command \<noteq> []" "MAX_COMMANDS < length params" "length params \<le> 2 * MAX_COMMANDS"
    and "length (batch_request command (drop MAX_COMMANDS params))
           \<le> length (batch_request command (take MAX_COMMANDS params))"
  shows "prepareRequests rup command params =
           Done [batch_request command (drop MAX_COMMANDS params)
                   @ drop (length (batch_request command (drop MAX_COMMANDS params)))
                       (batch_request command (take MAX_COMMANDS params)),
                 batch_request command (drop MAX_COMMANDS params)]"
proof -
  let ?st = "([], \<lparr>buf = None, off = 0\<rparr>, []) :: heap \<times> Buffer \<times> slice option list"
  define r1 where "r1 = batch_request command (take MAX_COMMANDS params)"
  define r2 where "r2 = batch_request command (drop MAX_COMMANDS params)"
  obtain h b reqs where ob: "one_batch rup command params 0 ?st = (h, b, reqs)"
    by (cases "one_batch rup command params 0 ?st")
  from one_batch_content [OF buf_ok_empty ob]
  have ok: "buf_ok h b" and reqs: "reqs = [buf b]" and bytes: "slice_bytes h (buf b) = r1"
    by (simp_all add: r1_def)
  have "r1 \<noteq> []" by (simp add: r1_def batch_request_def)
  with bytes obtain x where x: "buf b = Some x"
    by (cases "buf b") (auto simp: slice_bytes_def)
  from ok x have xs: "off b = 0" "start x = 0" "array x < length h"
    "len x \<le> length (h ! array x)"
    by (simp_all add: buf_ok_def)
  from bytes x xs have r1: "take (len x) (h ! array x) = r1"
    by (simp add: slice_bytes_def)
  then have l1: "length r1 = len x" using xs(4) by auto
  have chunk2: "take MAX_COMMANDS (drop MAX_COMMANDS params) = drop MAX_COMMANDS params"
    using assms(3) by simp
  have fits: "length (batch_request command (take MAX_COMMANDS (drop MAX_COMMANDS params)))
      \<le> length (h ! array x)"
    using assms(4) l1 xs(4) by (simp only: chunk2 r1_def [symmetric])
  let ?h2 = "h[array x := overwrite (h ! array x) 0 r2]"
  from one_batch_inplace [OF x xs(1-3) fits, of rup reqs]
  have ob2: "one_batch rup command params MAX_COMMANDS (h, b, reqs) =
      (?h2, b\<lparr>buf := Some (x\<lparr>len := length r2\<rparr>)\<rparr>, reqs @ [Some (x\<lparr>len := length r2\<rparr>)])"
    by (simp only: chunk2 r2_def)
  have "batches rup command params 0 ?st =
      (?h2, b\<lparr>buf := Some (x\<lparr>len := length r2\<rparr>)\<rparr>, reqs @ [Some (x\<lparr>len := length r2\<rparr>)])"
  proof -
    from assms(2) have "params \<noteq> []" by auto
    with assms(2,3) ob ob2 show ?thesis
      by (subst batches.simps, subst batches.simps, subst batches.simps)
         (simp add: MAX_COMMANDS_def)
  qed
  moreover from assms(2) have "2 \<le> length params" by (simp add: MAX_COMMANDS_def)
  ultimately have res: "prepareRequests rup command params =
      Done (map (slice_bytes ?h2) (reqs @ [Some (x\<lparr>len := length r2\<rparr>)]))"
    using assms(1) by (intro prepareRequests_batches)
  from assms(4) l1 have l2: "length r2 \<le> len x" by (simp add: r1_def r2_def)
  have ow: "overwrite (h ! array x) 0 r2 = r2 @ drop (length r2) (h ! array x)"
    by (simp add: overwrite_def)
  have "take (len x) (overwrite (h ! array x) 0 r2) = r2 @ drop (length r2) r1"
    using l2 by (simp add: ow r1 [symmetric] drop_take)
  moreover have "take (length r2) (overwrite (h ! array x) 0 r2) = r2"
    by (simp add: ow)
  ultimately show ?thesis
    using res reqs x xs(2,3) by (simp add: slice_bytes_def r1_def r2_def)
qed

lemma ceiling_div_MAX:
  "nat \<lceil>real n / real MAX_COMMANDS\<rceil> = (n + (MAX_COMMANDS - 1)) div MAX_COMMANDS"
  unfolding MAX_COMMANDS_def by linarith

subsection \<open>What \<open>prepareRequests\<close> returns\<close>

text \<open>
  C2.  For a command that is not empty, \<open>prepareRequests\<close> returns one request for
  no parameter, one request for one parameter, and the ceiling of \<open>N / 30\<close> requests
  for \<open>N \<ge> 2\<close> parameters, whatever the allocator.
\<close>

theorem prepareRequests_count:
  assumes "command \<noteq> []"
  shows "\<exists>requests. prepareRequests rup command params = Done requests \<and>
           length requests =
             (if length params = 0 then 1
              else if length params = 1 then 1
              else nat \<lceil>real (length params) / real MAX_COMMANDS\<rceil>)"
proof (cases "2 \<le> length params")
  case True
  let ?st = "([], \<lparr>buf = None, off = 0\<rparr>, []) :: heap \<times> Buffer \<times> slice option list"
  obtain h b requests where bt: "batches rup command params 0 ?st = (h, b, requests)"
    by (cases "batches rup command params 0 ?st")
  from batches_length [of rup command params 0 ?st] bt
  have "length requests = (length params + (MAX_COMMANDS - 1)) div MAX_COMMANDS" by simp
  with prepareRequests_batches [OF assms True bt] True show ?thesis
    by (auto simp: ceiling_div_MAX)
next
  case False
  then have "params = [] \<or> (\<exists>p. params = [p])"
    by (cases params) (auto simp: Suc_le_eq)
  with assms show ?thesis
    by (auto simp: prepareRequests_def)
qed

text \<open>
  The claim at 61 parameters: three requests.
\<close>

theorem prepareRequests_count_witness:
  "''dispatch'' \<noteq> [] \<and>
   (\<exists>requests. prepareRequests exact ''dispatch'' (replicate 61 ''workspace 1'') = Done requests \<and>
      length requests = 3)"
proof -
  have c: "''dispatch'' \<noteq> []" by simp
  have "nat \<lceil>real 61 / real MAX_COMMANDS\<rceil> = 3"
    by (simp add: ceiling_div_MAX) (simp add: MAX_COMMANDS_def)
  with prepareRequests_count [OF c, of exact "replicate 61 ''workspace 1''"] show ?thesis
    by simp
qed

text \<open>
  The requests themselves.  One parameter gives \<open>command + " " + param\<close>, and from
  two to thirty parameters give the one batch request of the specification, as in its
  example.
\<close>

lemma prepareRequests_one_param:
  "command \<noteq> [] \<Longrightarrow> prepareRequests rup command [param] = Done [command @ '' '' @ param]"
  by (simp add: prepareRequests_def)

lemma prepareRequests_no_param:
  "command \<noteq> [] \<Longrightarrow> prepareRequests rup command [] = Done [command]"
  by (simp add: prepareRequests_def)

lemma prepareRequests_example:
  "prepareRequests rup ''dispatch'' [''exec kitty'', ''workspace 2'']
     = Done [''[[BATCH]]dispatch exec kitty;dispatch workspace 2;'']"
proof -
  have "prepareRequests rup ''dispatch'' [''exec kitty'', ''workspace 2'']
      = Done [batch_request ''dispatch'' [''exec kitty'', ''workspace 2'']]"
    by (rule prepareRequests_one_chunk) (simp_all add: MAX_COMMANDS_def)
  then show ?thesis by (simp add: batch_request_def)
qed

lemma concat_replicate_Suc: "concat (replicate (Suc n) s) = s @ concat (replicate n s)"
  by simp

lemma length_concat_replicate: "length (concat (replicate n s)) = n * length s"
  by (induction n) simp_all

text \<open>
  C3.  With more than thirty parameters the requests are not the batch requests of
  their chunks.  Every pass of the outer loop resets the one buffer and writes the
  next chunk over the array that the slice appended by the pass before still shows
  (\<open>prepareRequests_aliased\<close>).  For thirty times \<open>workspace 1\<close> and then
  \<open>workspace 2\<close>, the first request returned begins with the second chunk, whatever
  the allocator: it is not the batch request of the first thirty parameters.
\<close>

theorem prepareRequests_first_batch_overwritten:
  "prepareRequests rup ''dispatch'' (replicate 30 ''workspace 1'' @ [''workspace 2''])
     = Done [''[[BATCH]]dispatch workspace 2;'' @ concat (replicate 29 ''dispatch workspace 1;''),
             ''[[BATCH]]dispatch workspace 2;'']
   \<and> ''[[BATCH]]dispatch workspace 2;'' @ concat (replicate 29 ''dispatch workspace 1;'')
       \<noteq> batch_request ''dispatch'' (replicate 30 ''workspace 1'')"
proof -
  let ?params = "replicate 30 ''workspace 1'' @ [''workspace 2'']"
  have t: "take MAX_COMMANDS ?params = replicate 30 ''workspace 1''"
    and d: "drop MAX_COMMANDS ?params = [''workspace 2'']"
    by (simp_all add: MAX_COMMANDS_def)
  have r1: "batch_request ''dispatch'' (replicate 30 ''workspace 1'')
      = ''[[BATCH]]'' @ concat (replicate 30 ''dispatch workspace 1;'')"
    by (simp add: batch_request_def)
  have r2: "batch_request ''dispatch'' [''workspace 2''] = ''[[BATCH]]dispatch workspace 2;''"
    by (simp add: batch_request_def)
  have s: "replicate 30 ''dispatch workspace 1;''
      = ''dispatch workspace 1;'' # replicate 29 ''dispatch workspace 1;''"
    by (simp add: numeral_eq_Suc)
  have "prepareRequests rup ''dispatch'' ?params =
      Done [batch_request ''dispatch'' (drop MAX_COMMANDS ?params)
              @ drop (length (batch_request ''dispatch'' (drop MAX_COMMANDS ?params)))
                  (batch_request ''dispatch'' (take MAX_COMMANDS ?params)),
            batch_request ''dispatch'' (drop MAX_COMMANDS ?params)]"
    by (rule prepareRequests_aliased)
       (simp_all only: t d r1 r2, simp_all add: MAX_COMMANDS_def length_concat_replicate)
  then have "prepareRequests rup ''dispatch'' ?params =
      Done [''[[BATCH]]dispatch workspace 2;'' @ concat (replicate 29 ''dispatch workspace 1;''),
            ''[[BATCH]]dispatch workspace 2;'']"
    by (simp only: t d r1 r2) (simp add: s)
  moreover have "''[[BATCH]]dispatch workspace 2;'' @ concat (replicate 29 ''dispatch workspace 1;'')
       \<noteq> batch_request ''dispatch'' (replicate 30 ''workspace 1'')"
    by (simp only: r1) (simp add: s)
  ultimately show ?thesis by simp
qed

text \<open>
  C7.  On the empty command \<open>prepareRequests\<close> panics with \<open>empty command\<close>: it
  returns neither requests nor an error, and \<open>doRequest\<close>, which does not recover,
  panics with it.
\<close>

theorem prepareRequests_empty_command_panics:
  "prepareRequests rup [] params = Panicked ''empty command'' \<and>
   doRequest rup c [] params w = Panicked ''empty command''"
  by (simp add: prepareRequests_def doRequest_def)

text \<open>
  The panic at the empty command with one parameter.
\<close>

theorem prepareRequests_empty_command_counterexample:
  "prepareRequests exact [] [''exec kitty''] = Panicked ''empty command''"
  by (simp add: prepareRequests_def)

section \<open>Properties of the request transport\<close>

lemma read_loop_Eof:
  "ahead cn = Eof # rest \<Longrightarrow> read_loop cn resp = (Done (Inr resp), cn)"
  by (subst read_loop.simps) (simp add: conn_Read_def)

lemma read_loop_short:
  "ahead cn = Chunk d # rest \<Longrightarrow> length d < BUF_SIZE \<Longrightarrow>
   read_loop cn resp = (Done (Inr (resp @ d)), cn\<lparr>ahead := rest\<rparr>)"
  by (subst read_loop.simps) (simp add: conn_Read_def)

lemma read_loop_full:
  "ahead cn = Chunk d # rest \<Longrightarrow> length d = BUF_SIZE \<Longrightarrow>
   read_loop cn resp = read_loop (cn\<lparr>ahead := rest\<rparr>) (resp @ d)"
  by (subst read_loop.simps) (simp add: conn_Read_def)

lemma read_loop_more:
  "ahead cn = Chunk d # rest \<Longrightarrow> BUF_SIZE < length d \<Longrightarrow>
   read_loop cn resp =
     read_loop (cn\<lparr>ahead := Chunk (drop BUF_SIZE d) # rest\<rparr>) (resp @ take BUF_SIZE d)"
  by (subst read_loop.simps) (simp add: conn_Read_def)

lemma read_loop_whole_reads:
  "ahead cn = Chunk d # rest \<Longrightarrow> length d = Suc n * BUF_SIZE \<Longrightarrow>
   read_loop cn resp = read_loop (cn\<lparr>ahead := rest\<rparr>) (resp @ d)"
proof (induction n arbitrary: cn d resp)
  case 0
  then show ?case by (simp add: read_loop_full)
next
  case (Suc n)
  let ?cn = "cn\<lparr>ahead := Chunk (drop BUF_SIZE d) # rest\<rparr>"
  from Suc.prems(2) have big: "BUF_SIZE < length d" by (simp add: BUF_SIZE_def)
  have "read_loop ?cn (resp @ take BUF_SIZE d)
      = read_loop (?cn\<lparr>ahead := rest\<rparr>) ((resp @ take BUF_SIZE d) @ drop BUF_SIZE d)"
    using Suc.prems(2) by (intro Suc.IH) simp_all
  with read_loop_more [OF Suc.prems(1) big, of resp] show ?case by simp
qed

lemma read_loop_chunks:
  "\<forall>d\<in>set ds. d \<noteq> [] \<and> BUF_SIZE dvd length d \<Longrightarrow> ahead cn = map Chunk ds @ rest \<Longrightarrow>
   read_loop cn resp = read_loop (cn\<lparr>ahead := rest\<rparr>) (resp @ concat ds)"
proof (induction ds arbitrary: cn resp)
  case Nil
  then have "cn\<lparr>ahead := rest\<rparr> = cn" by simp
  then show ?case by simp
next
  case (Cons d ds)
  from Cons.prems(1) have "d \<noteq> []" "BUF_SIZE dvd length d" by simp_all
  then obtain n where n: "length d = Suc n * BUF_SIZE"
    by (cases "length d div BUF_SIZE") (auto simp: BUF_SIZE_def)
  let ?cn = "cn\<lparr>ahead := map Chunk ds @ rest\<rparr>"
  from Cons.prems(2) have "ahead cn = Chunk d # (map Chunk ds @ rest)" by simp
  from read_loop_whole_reads [OF this n]
  have "read_loop cn resp = read_loop ?cn (resp @ d)" .
  also have "\<dots> = read_loop (?cn\<lparr>ahead := rest\<rparr>) ((resp @ d) @ concat ds)"
    using Cons.prems(1) by (intro Cons.IH) simp_all
  finally show ?case by simp
qed

subsection \<open>What \<open>Request\<close> sends and returns\<close>

lemma Request_after_write:
  assumes "request \<noteq> []" "write_err p = None"
    and "read_loop \<lparr>ahead = incoming p, wfail = None, sent = [''j/'' @ request], closed = False\<rparr> []
           = (Done r, cn)"
  shows "Request c request (DialOk p) = (Done r, Some (conn_Close cn))"
  using assms by (simp add: Request_def connect_def conn_Write_def)

text \<open>
  C4.  For a request that is not empty, on a connection that accepts the write:
  \<open>Request\<close> writes \<open>j/\<close> followed by the request and nothing else, and when the
  peer's bytes arrive in runs that fill whole reads of \<open>BUF_SIZE\<close> bytes, followed by
  a shorter run or by the end of the stream, it returns all of them in order and
  closes the connection.
\<close>

theorem Request_reassembles:
  assumes "request \<noteq> []" and "write_err p = None"
    and "incoming p = map Chunk ds @ t # rest"
    and "\<forall>d\<in>set ds. d \<noteq> [] \<and> BUF_SIZE dvd length d"
    and "t = Eof \<or> (\<exists>d. t = Chunk d \<and> length d < BUF_SIZE)"
  shows "\<exists>cn. Request c request (DialOk p) = (Done (Inr (concat ds @ stream [t])), Some cn) \<and>
           sent cn = [''j/'' @ request] \<and> closed cn"
proof -
  let ?cn = "\<lparr>ahead = incoming p, wfail = None, sent = [''j/'' @ request], closed = False\<rparr>"
  from assms(3) have "ahead ?cn = map Chunk ds @ (t # rest)" by simp
  from read_loop_chunks [OF assms(4) this, of "[]"]
  have rl: "read_loop ?cn [] = read_loop (?cn\<lparr>ahead := t # rest\<rparr>) (concat ds)" by simp
  from assms(5) obtain cn' where
    "read_loop (?cn\<lparr>ahead := t # rest\<rparr>) (concat ds) = (Done (Inr (concat ds @ stream [t])), cn')"
    and "sent cn' = [''j/'' @ request]"
  proof
    assume "t = Eof"
    then show ?thesis
      using read_loop_Eof [of "?cn\<lparr>ahead := t # rest\<rparr>" rest "concat ds"] that by simp
  next
    assume "\<exists>d. t = Chunk d \<and> length d < BUF_SIZE"
    then obtain d where "t = Chunk d" "length d < BUF_SIZE" by blast
    then show ?thesis
      using read_loop_short [of "?cn\<lparr>ahead := t # rest\<rparr>" d rest "concat ds"] that by simp
  qed
  with rl Request_after_write [OF assms(1,2), of _ _ c] show ?thesis
    by (simp add: conn_Close_def)
qed

text \<open>
  The claim at a response of three times \<open>BUF_SIZE\<close> bytes and then the end of the stream.
\<close>

theorem Request_reassembles_witness:
  "\<exists>cn. Request (a_client True) ''version''
          (DialOk \<lparr>write_err = None,
                   incoming = [Chunk (replicate (3 * BUF_SIZE) (CHR ''x'')), Eof]\<rparr>)
        = (Done (Inr (replicate (3 * BUF_SIZE) (CHR ''x''))), Some cn) \<and>
      sent cn = [''j/version''] \<and> closed cn"
  using Request_reassembles [of "''version''"
      "\<lparr>write_err = None, incoming = [Chunk (replicate (3 * BUF_SIZE) (CHR ''x'')), Eof]\<rparr>"
      "[replicate (3 * BUF_SIZE) (CHR ''x'')]" Eof "[]" "a_client True"]
  by (simp add: BUF_SIZE_def)

text \<open>
  C8.  When the dial fails, \<open>Request\<close> does not return the connection error: it
  panics on the deferred \<open>Close\<close> of the nil connection.
\<close>

theorem Request_dial_failure_panics:
  "Request (a_client True) ''version''
     (DialFail (net_OpError ''dial unix /run/user/1000/hypr/a/.socket.sock: connect: no such file or directory''))
   = (Panicked ''runtime error: invalid memory address or nil pointer dereference'', None)"
  by (simp add: Request_def)

text \<open>
  When the write fails, the error is returned and the connection is closed.
\<close>

lemma Request_write_failure:
  "request \<noteq> [] \<Longrightarrow> write_err p = Some err \<Longrightarrow>
   \<exists>cn. Request c request (DialOk p)
           = (Done (Inl (fmt_Errorf ''error while writing to socket: '' err)), Some cn) \<and>
        ConnectionError (fmt_Errorf ''error while writing to socket: '' err) \<and> closed cn"
  by (simp add: Request_def connect_def conn_Write_def conn_Close_def)

section \<open>Properties of the calls\<close>

lemma validated_empty:
  "validated c params (Done (Inr [])) =
     Done (if Validate c then Some (errors_New ''empty response'') else None)"
  by (simp add: validated_def validateResponse_def)

lemma decoded_empty:
  "decoded unmarshal (Done (Inr [])) = Done (Inl (errors_New ''empty response''))"
  by (simp add: decoded_def unmarshalResponse_def)

lemma Request_silent:
  "request \<noteq> [] \<Longrightarrow> fst (Request c request (silent k)) = Done (Inr [])"
  by (simp add: Request_def silent_def connect_def conn_Write_def read_loop_Eof)

lemma doRequest_silent:
  "command \<noteq> [] \<Longrightarrow> params = [] \<or> params = [param] \<Longrightarrow>
   doRequest rup c command params silent = Done (Inr [])"
  by (auto simp: doRequest_def prepareRequests_def Request_silent)

text \<open>
  C5.  What a response of no bytes does to each call.  The calls that decode
  (\<open>ActiveWindow\<close>, \<open>ActiveWorkspace\<close>, \<open>Clients\<close>, \<open>CursorPos\<close>, \<open>GetOption\<close>,
  \<open>Version\<close>) fail with \<open>empty response\<close> whatever \<open>Validate\<close> is.  The calls that
  validate (\<open>Dispatch\<close>, \<open>Kill\<close>, \<open>Reload\<close>) fail with it when \<open>Validate\<close> is true and
  return no error when it is false.  \<open>Splash\<close> returns the empty text.
\<close>

theorem empty_response_by_call:
  "(doRequest rup c ''dispatch'' params w = Done (Inr []) \<longrightarrow>
      Dispatch rup c params w
        = Done (if Validate c then Some (errors_New ''empty response'') else None)) \<and>
   (doRequest rup c ''kill'' [] w = Done (Inr []) \<longrightarrow>
      Kill rup c w = Done (if Validate c then Some (errors_New ''empty response'') else None)) \<and>
   (doRequest rup c ''reload'' [] w = Done (Inr []) \<longrightarrow>
      Reload rup c w = Done (if Validate c then Some (errors_New ''empty response'') else None)) \<and>
   (doRequest rup c ''activewindow'' [] w = Done (Inr []) \<longrightarrow>
      ActiveWindow u1 rup c w = Done (Inl (errors_New ''empty response''))) \<and>
   (doRequest rup c ''activeworkspace'' [] w = Done (Inr []) \<longrightarrow>
      ActiveWorkspace u2 rup c w = Done (Inl (errors_New ''empty response''))) \<and>
   (doRequest rup c ''clients'' [] w = Done (Inr []) \<longrightarrow>
      Clients u3 rup c w = Done (Inl (errors_New ''empty response''))) \<and>
   (doRequest rup c ''cursorpos'' [] w = Done (Inr []) \<longrightarrow>
      CursorPos u4 rup c w = Done (Inl (errors_New ''empty response''))) \<and>
   (doRequest rup c ''getoption'' [name] w = Done (Inr []) \<longrightarrow>
      GetOption u5 rup c name w = Done (Inl (errors_New ''empty response''))) \<and>
   (doRequest rup c ''version'' [] w = Done (Inr []) \<longrightarrow>
      Version u6 rup c w = Done (Inl (errors_New ''empty response''))) \<and>
   (doRequest rup c ''splash'' [] w = Done (Inr []) \<longrightarrow>
      Splash rup c w = Done (Inr []))"
  by (simp add: Dispatch_def Kill_def Reload_def ActiveWindow_def ActiveWorkspace_def
      Clients_def CursorPos_def GetOption_def Version_def Splash_def
      validated_empty decoded_empty)

text \<open>
  The claim on a peer that closes every connection without a byte.
\<close>

theorem empty_response_by_call_witness:
  "Dispatch exact (a_client True) [''exec kitty''] silent
      = Done (Some (errors_New ''empty response'')) \<and>
   Dispatch exact (a_client False) [''exec kitty''] silent = Done None \<and>
   Kill exact (a_client True) silent = Done (Some (errors_New ''empty response'')) \<and>
   Reload exact (a_client False) silent = Done None \<and>
   ActiveWindow Inr exact (a_client False) silent = Done (Inl (errors_New ''empty response'')) \<and>
   ActiveWorkspace Inr exact (a_client False) silent = Done (Inl (errors_New ''empty response'')) \<and>
   Clients Inr exact (a_client False) silent = Done (Inl (errors_New ''empty response'')) \<and>
   CursorPos Inr exact (a_client False) silent = Done (Inl (errors_New ''empty response'')) \<and>
   GetOption Inr exact (a_client False) ''general:border_size'' silent
      = Done (Inl (errors_New ''empty response'')) \<and>
   Version Inr exact (a_client False) silent = Done (Inl (errors_New ''empty response'')) \<and>
   Splash exact (a_client False) silent = Done (Inr [])"
  using
    empty_response_by_call [of exact "a_client True" "[''exec kitty'']" silent
      Inr Inr Inr Inr "''general:border_size''" Inr Inr]
    empty_response_by_call [of exact "a_client False" "[''exec kitty'']" silent
      Inr Inr Inr Inr "''general:border_size''" Inr Inr]
  by (simp add: doRequest_silent a_client_def)

text \<open>
  \<open>Dispatch\<close> with \<open>Validate\<close> set to false, on a response of no bytes: no error.
\<close>

theorem Dispatch_unvalidated_empty_response:
  "doRequest exact (a_client False) ''dispatch'' [''exec kitty''] silent = Done (Inr []) \<and>
   Dispatch exact (a_client False) [''exec kitty''] silent = Done None"
  by (simp add: Dispatch_def validated_def validateResponse_def doRequest_silent a_client_def)

text \<open>
  C10.  When \<open>NewClient\<close> succeeds on two socket paths that are not empty, the
  client it returns has \<open>Validate\<close> set to true.
\<close>

theorem NewClient_validates:
  "requestSocket \<noteq> [] \<Longrightarrow> eventSocket \<noteq> [] \<Longrightarrow>
   NewClient requestSocket eventSocket d = Inr c \<Longrightarrow> Validate c"
  by (auto simp: NewClient_def split: dial.splits)

text \<open>
  The claim on an event socket that accepts the connection.
\<close>

theorem NewClient_validates_witness:
  "''/tmp/.socket.sock'' \<noteq> [] \<and> ''/tmp/.socket2.sock'' \<noteq> [] \<and>
   NewClient ''/tmp/.socket.sock'' ''/tmp/.socket2.sock'' (DialOk \<lparr>write_err = None, incoming = []\<rparr>)
     = Inr \<lparr>Validate = True,
            requestConn = \<lparr>Name = ''/tmp/.socket.sock'', Net = ''unix''\<rparr>,
            eventConn = connect \<lparr>write_err = None, incoming = []\<rparr>\<rparr> \<and>
   Validate \<lparr>Validate = True,
            requestConn = \<lparr>Name = ''/tmp/.socket.sock'', Net = ''unix''\<rparr>,
            eventConn = connect \<lparr>write_err = None, incoming = []\<rparr>\<rparr>"
proof -
  have a: "''/tmp/.socket.sock'' \<noteq> []" and b: "''/tmp/.socket2.sock'' \<noteq> []" by simp_all
  have n: "NewClient ''/tmp/.socket.sock'' ''/tmp/.socket2.sock'' (DialOk \<lparr>write_err = None, incoming = []\<rparr>)
     = Inr \<lparr>Validate = True,
            requestConn = \<lparr>Name = ''/tmp/.socket.sock'', Net = ''unix''\<rparr>,
            eventConn = connect \<lparr>write_err = None, incoming = []\<rparr>\<rparr>"
    by (simp add: NewClient_def)
  from NewClient_validates [OF a b n] a b n show ?thesis by blast
qed

section \<open>Properties of the event stream reader\<close>

lemma split_lines_append:
  "split_lines p (s @ t) =
     (fst (split_lines p s) @ fst (split_lines (snd (split_lines p s)) t),
      snd (split_lines (snd (split_lines p s)) t))"
  by (induction s arbitrary: p) simp_all

lemma split_lines_rebuild:
  "concat (map (\<lambda>l. l @ [CHR 0x0A]) (fst (split_lines p s))) @ snd (split_lines p s) = p @ s"
  by (induction s arbitrary: p) simp_all

text \<open>A record and the separator put together again give the line.\<close>

lemma strings_Index_Some:
  "strings_Index s sep = Some i \<Longrightarrow> take i s @ sep @ drop (i + length sep) s = s"
proof (induction s arbitrary: i)
  case Nil
  then show ?case by (simp split: if_splits)
next
  case (Cons c s)
  show ?case
  proof (cases "take (length sep) (c # s) = sep")
    case True
    with Cons.prems have "i = 0" by simp
    moreover from True have "sep @ drop (length sep) (c # s) = c # s"
      by (metis append_take_drop_id)
    ultimately show ?thesis by simp
  next
    case False
    with Cons.prems obtain j where "strings_Index s sep = Some j" "i = Suc j" by auto
    with Cons.IH [of j] show ?thesis by simp
  qed
qed

lemma decode_line_Some:
  "decode_line line = Some r \<Longrightarrow> Type r @ ''>>'' @ Data r = line"
  using strings_Index_Some [of line "''>>''"]
  by (auto simp: decode_line_def split: option.splits)

lemma conn_Read_stream:
  "conn_Read k c = (r, c') \<Longrightarrow>
   stream (ahead c) = (case r of Got d \<Rightarrow> d @ stream (ahead c') | _ \<Rightarrow> [])"
  by (auto simp: conn_Read_def split: list.splits segment.splits if_splits)

lemma listen_stream:
  "fst (listen ec delivered) =
     delivered @ map decode_line (fst (split_lines (pending ec) (stream (ahead (conn ec)))))"
proof (induction ec delivered rule: listen.induct)
  case (1 ec delivered)
  obtain r c' where rd: "conn_Read BUF_SIZE (conn ec) = (r, c')"
    by (cases "conn_Read BUF_SIZE (conn ec)")
  note st = conn_Read_stream [OF rd]
  show ?case
  proof (cases r)
    case (Got d)
    let ?ec' = "\<lparr>conn = c', pending = snd (split_lines (pending ec) d)\<rparr>"
    let ?ev = "map decode_line (fst (split_lines (pending ec) d))"
    from rd Got have rc: "Receive ec = (Done (Inr ?ev), ?ec')"
      by (simp add: Receive_def)
    from "1.IH" [OF rc [symmetric] refl refl]
    have "fst (listen ?ec' (delivered @ ?ev)) = (delivered @ ?ev)
      @ map decode_line (fst (split_lines (pending ?ec') (stream (ahead (conn ?ec')))))" .
    with rc st Got show ?thesis
      by (subst listen.simps) (simp add: split_lines_append)
  next
    case (Err e)
    with rd st show ?thesis
      by (subst listen.simps) (simp add: Receive_def)
  next
    case Waits
    with rd st show ?thesis
      by (subst listen.simps) (simp add: Receive_def)
  qed
qed

text \<open>
  C9.  The events delivered are the complete lines of the bytes the peer wrote, in
  order, each split at its first \<open>>>\<close>, however the bytes are cut into reads; the
  complete lines with their line ends, followed by the partial line, are the bytes
  themselves; and the two lines of the specification's example, cut into two reads at
  any position \<open>k\<close>, give its two records.
\<close>

theorem listen_delivers_in_order:
  "fst (listen (EventClient_on segs) []) = map decode_line (complete_lines (stream segs)) \<and>
   concat (map (\<lambda>l. l @ [CHR 0x0A]) (complete_lines s)) @ partial_line s = s \<and>
   fst (listen (EventClient_on
          [Chunk (take k (''workspace>>3'' @ [CHR 0x0A] @ ''focusedmon>>eDP-1,3'' @ [CHR 0x0A])),
           Chunk (drop k (''workspace>>3'' @ [CHR 0x0A] @ ''focusedmon>>eDP-1,3'' @ [CHR 0x0A]))]) [])
     = [Some \<lparr>Type = ''workspace'', Data = ''3''\<rparr>,
        Some \<lparr>Type = ''focusedmon'', Data = ''eDP-1,3''\<rparr>]"
proof -
  have a: "fst (listen (EventClient_on segs) []) = map decode_line (complete_lines (stream segs))"
    for segs
    using listen_stream [of "EventClient_on segs" "[]"]
    by (simp add: EventClient_on_def connect_def complete_lines_def)
  have b: "concat (map (\<lambda>l. l @ [CHR 0x0A]) (complete_lines s)) @ partial_line s = s"
    using split_lines_rebuild [of "[]" s] by (simp add: complete_lines_def partial_line_def)
  let ?inp = "''workspace>>3'' @ [CHR 0x0A] @ ''focusedmon>>eDP-1,3'' @ [CHR 0x0A]"
  have "stream [Chunk (take k ?inp), Chunk (drop k ?inp)] = ?inp"
    by (simp only: stream.simps append_Nil2 append_take_drop_id)
  moreover have "map decode_line (complete_lines ?inp)
      = [Some \<lparr>Type = ''workspace'', Data = ''3''\<rparr>,
         Some \<lparr>Type = ''focusedmon'', Data = ''eDP-1,3''\<rparr>]"
    by (simp add: complete_lines_def decode_line_def)
  ultimately show ?thesis
    using a b by (simp only:)
qed

end
